theory Spec2Isabelle
  imports Complex_Main
begin

section \<open>The GIF creator (src/MakeGif.py): data model\<close>

text \<open>
  \<^verbatim>\<open>GifCreatorApp\<close> keeps the frame sequence in the Python list \<^verbatim>\<open>self.images\<close> and
  the history in two lists of tuples \<^verbatim>\<open>(kind, old_images, new_images)\<close>. Python lists
  are objects: \<^verbatim>\<open>self.images = old_state\<close> copies a reference, \<^verbatim>\<open>self.images.extend\<close>
  and \<^verbatim>\<open>del self.images[i]\<close> change the object in place, \<^verbatim>\<open>self.images.copy()\<close> makes
  a new object. The model keeps a store of list objects, so that two names of
  one object see each other's updates.
\<close>

type_synonym path = string
type_synonym ref = nat

datatype error = ZeroDivisionError | IndexError | ValueError | DecodeError path | EncodeError

text \<open>The widgets the logic reads back: only the properties the code uses.\<close>

record QListWidget =
  item_texts :: "string list"
  currentRow :: int

record QTimer =
  isActive :: bool
  interval :: int

record QSlider =
  slider_minimum :: int
  slider_maximum :: int
  slider_value :: int

record QProgressBar =
  bar_visible :: bool
  bar_value :: int

type_synonym action = "string \<times> ref \<times> ref"

record app =
  heap :: "ref \<Rightarrow> path list"
  nxt :: ref
  images :: ref
  current_image_index :: int
  fps :: int
  is_playing :: bool
  play_timer :: QTimer
  undo_stack :: "action list"
  redo_stack :: "action list"
  image_list :: QListWidget
  thumbnails :: "(path \<times> nat \<times> nat) list"
  preview :: "path option"
  play_button_text :: string
  optimize_toggle :: bool
  quality_slider :: QSlider
  resolution_combo :: string
  loop_count_spin :: int
  output_format_combo :: string
  progress_bar :: QProgressBar

text \<open>The frame sequence: the contents of the list object \<^verbatim>\<open>self.images\<close> names.\<close>

definition frames :: "app \<Rightarrow> path list" where
  "frames s = heap s (images s)"

text \<open>\<^verbatim>\<open>QSlider.setRange\<close> and \<^verbatim>\<open>QSlider.setValue\<close>: Qt keeps the value inside the range.\<close>

definition setRange :: "int \<Rightarrow> int \<Rightarrow> QSlider \<Rightarrow> QSlider" where
  "setRange lo hi w =
     w\<lparr>slider_minimum := lo, slider_maximum := max lo hi,
       slider_value := max lo (min (max lo hi) (slider_value w))\<rparr>"

definition setValue :: "int \<Rightarrow> QSlider \<Rightarrow> QSlider" where
  "setValue v w = w\<lparr>slider_value := max (slider_minimum w) (min (slider_maximum w) v)\<rparr>"

text \<open>A new \<^verbatim>\<open>QSlider\<close>: range 0..99, value 0.\<close>

definition new_QSlider :: QSlider where
  "new_QSlider = \<lparr>slider_minimum = 0, slider_maximum = 99, slider_value = 0\<rparr>"

text \<open>
  \<^verbatim>\<open>__init__\<close> and the part of \<^verbatim>\<open>init_ui\<close> that sets values: the empty list at
  address 0, index 0, 24 fps, both stacks empty, quality slider 1..100 at 85,
  resolution "Original", loop count 0, format "GIF", optimize on.
\<close>

definition init :: app where
  "init = \<lparr>heap = (\<lambda>_. []), nxt = 1, images = 0, current_image_index = 0, fps = 24,
     is_playing = False, play_timer = \<lparr>isActive = False, interval = 0\<rparr>,
     undo_stack = [], redo_stack = [],
     image_list = \<lparr>item_texts = [], currentRow = - 1\<rparr>, thumbnails = [],
     preview = None, play_button_text = ''Play'', optimize_toggle = True,
     quality_slider = setValue 85 (setRange 1 100 new_QSlider),
     resolution_combo = ''Original'', loop_count_spin = 0,
     output_format_combo = ''GIF'',
     progress_bar = \<lparr>bar_visible = False, bar_value = 0\<rparr>\<rparr>"

section \<open>Frame list operations\<close>

text \<open>\<^verbatim>\<open>xs.copy()\<close>: a new list object with the same elements.\<close>

definition list_copy :: "app \<Rightarrow> ref \<Rightarrow> ref \<times> app" where
  "list_copy s r = (nxt s, s\<lparr>heap := (heap s)(nxt s := heap s r), nxt := Suc (nxt s)\<rparr>)"

text \<open>\<^verbatim>\<open>xs.extend(ys)\<close>: in place.\<close>

definition list_extend :: "app \<Rightarrow> ref \<Rightarrow> path list \<Rightarrow> app" where
  "list_extend s r ys = s\<lparr>heap := (heap s)(r := heap s r @ ys)\<rparr>"

text \<open>
  \<^verbatim>\<open>del xs[i]\<close> on a Python list: a negative index counts from the end, an index
  outside \<open>[-n, n)\<close> raises IndexError.
\<close>

definition del_item :: "'a list \<Rightarrow> int \<Rightarrow> error + 'a list" where
  "del_item xs i =
     (let n = int (length xs); j = (if i < 0 then n + i else i)
      in if 0 \<le> j \<and> j < n then Inr (take (nat j) xs @ drop (Suc (nat j)) xs)
         else Inl IndexError)"

text \<open>\<^verbatim>\<open>os.path.basename\<close> (POSIX): what follows the last slash.\<close>

definition basename :: "path \<Rightarrow> string" where
  "basename p = rev (takeWhile (\<lambda>c. c \<noteq> CHR ''/'') (rev p))"

text \<open>
  \<^verbatim>\<open>update_image_list\<close>: \<^verbatim>\<open>clear()\<close> empties the list widget and leaves no current
  row (\<open>-1\<close>); one item is added per frame; \<^verbatim>\<open>update_thumbnail_view\<close> rebuilds the
  grid, frame \<open>i\<close> at row \<open>i // 4\<close>, column \<open>i % 4\<close>.
\<close>

definition update_thumbnail_view :: "app \<Rightarrow> app" where
  "update_thumbnail_view s =
     s\<lparr>thumbnails := map (\<lambda>(i, p). (p, i div 4, i mod 4)) (enumerate 0 (frames s))\<rparr>"

definition update_image_list :: "app \<Rightarrow> app" where
  "update_image_list s =
     update_thumbnail_view
       (s\<lparr>image_list := \<lparr>item_texts = map basename (frames s), currentRow = - 1\<rparr>\<rparr>)"

text \<open>
  \<^verbatim>\<open>show_image\<close>. \<^verbatim>\<open>setCurrentRow\<close> emits \<^verbatim>\<open>itemSelectionChanged\<close>, whose slot
  \<^verbatim>\<open>on_select_image\<close> calls \<^verbatim>\<open>show_image\<close> again with the same row; the second
  call writes the same values, so the model runs the body once.
\<close>

definition show_image :: "app \<Rightarrow> int \<Rightarrow> app" where
  "show_image s index =
     (if 0 \<le> index \<and> index < int (length (frames s))
      then s\<lparr>preview := Some (frames s ! nat index),
             current_image_index := index,
             image_list := (image_list s)\<lparr>currentRow := index\<rparr>\<rparr>
      else s)"

section \<open>History\<close>

definition add_to_undo_stack :: "app \<Rightarrow> action \<Rightarrow> app" where
  "add_to_undo_stack s a = s\<lparr>undo_stack := undo_stack s @ [a], redo_stack := []\<rparr>"

definition add_images :: "app \<Rightarrow> path list \<Rightarrow> app" where
  "add_images s files =
     (let (old_images, s1) = list_copy s (images s);
          s2 = list_extend s1 (images s1) files;
          s3 = update_image_list s2;
          s4 = show_image s3 (int (length (heap s3 old_images)));
          (new_images, s5) = list_copy s4 (images s4)
      in add_to_undo_stack s5 (''add_images'', old_images, new_images))"

definition remove_selected_frame :: "app \<Rightarrow> error + app" where
  "remove_selected_frame s =
     (let current_row = currentRow (image_list s)
      in if current_row \<noteq> - 1 then
           (let (old_images, s1) = list_copy s (images s)
            in case del_item (heap s1 (images s1)) current_row of
                 Inl e \<Rightarrow> Inl e
               | Inr ys \<Rightarrow>
                   (let s2 = s1\<lparr>heap := (heap s1)(images s1 := ys)\<rparr>;
                        s3 = update_image_list s2;
                        s4 = (if frames s3 \<noteq> []
                              then show_image s3 (min current_row (int (length (frames s3)) - 1))
                              else s3\<lparr>preview := None\<rparr>);
                        (new_images, s5) = list_copy s4 (images s4)
                    in Inr (add_to_undo_stack s5 (''remove_frame'', old_images, new_images))))
         else Inr s)"

text \<open>
  \<^verbatim>\<open>undo\<close> and \<^verbatim>\<open>redo\<close>: \<^verbatim>\<open>pop()\<close> takes the last element; the restored list is
  assigned by reference.
\<close>

definition undo :: "app \<Rightarrow> app" where
  "undo s =
     (if undo_stack s \<noteq> [] then
        (let a = last (undo_stack s);
             s1 = s\<lparr>undo_stack := butlast (undo_stack s)\<rparr>;
             s2 = s1\<lparr>redo_stack := redo_stack s1 @ [a]\<rparr>;
             (action_type, old_state, new_state) = a;
             s3 = s2\<lparr>images := old_state\<rparr>
         in show_image (update_image_list s3) 0)
      else s)"

definition redo :: "app \<Rightarrow> app" where
  "redo s =
     (if redo_stack s \<noteq> [] then
        (let a = last (redo_stack s);
             s1 = s\<lparr>redo_stack := butlast (redo_stack s)\<rparr>;
             s2 = s1\<lparr>undo_stack := undo_stack s1 @ [a]\<rparr>;
             (action_type, old_state, new_state) = a;
             s3 = s2\<lparr>images := new_state\<rparr>
         in show_image (update_image_list s3) 0)
      else s)"

datatype mutation = AddImages "path list" | RemoveSelectedFrame

fun mutate :: "app \<Rightarrow> mutation \<Rightarrow> error + app" where
  "mutate s (AddImages files) = Inr (add_images s files)"
| "mutate s RemoveSelectedFrame = remove_selected_frame s"

section \<open>Playback\<close>

text \<open>
  \<^verbatim>\<open>update_fps\<close> stores the integer the frame-rate combo box shows (one of 6, 12,
  24, 30, 48, 60).
\<close>

definition update_fps :: "app \<Rightarrow> int \<Rightarrow> app" where
  "update_fps s v = s\<lparr>fps := v\<rparr>"

text \<open>
  \<^verbatim>\<open>toggle_play\<close>: \<^verbatim>\<open>1000 // self.fps\<close> is Python's floor division, which raises
  ZeroDivisionError on 0; on \<open>int\<close>, \<open>div\<close> is the same floor division.
\<close>

definition toggle_play :: "app \<Rightarrow> error + app" where
  "toggle_play s =
     (if is_playing s then
        Inr (s\<lparr>play_timer := (play_timer s)\<lparr>isActive := False\<rparr>,
               play_button_text := ''Play'', is_playing := \<not> is_playing s\<rparr>)
      else if fps s = 0 then Inl ZeroDivisionError
      else
        Inr (s\<lparr>play_timer := \<lparr>isActive = True, interval = 1000 div fps s\<rparr>,
               play_button_text := ''Pause'', is_playing := \<not> is_playing s\<rparr>))"

text \<open>
  \<^verbatim>\<open>next_frame\<close> and \<^verbatim>\<open>prev_frame\<close>: the argument of \<^verbatim>\<open>show_image\<close> is computed
  first, and \<^verbatim>\<open>% len(self.images)\<close> raises ZeroDivisionError on an empty list.
  \<^verbatim>\<open>next_frame\<close> is also the slot of the play timer's \<^verbatim>\<open>timeout\<close>.
\<close>

definition next_frame :: "app \<Rightarrow> error + app" where
  "next_frame s =
     (if length (frames s) = 0 then Inl ZeroDivisionError
      else Inr (show_image s ((current_image_index s + 1) mod int (length (frames s)))))"

definition prev_frame :: "app \<Rightarrow> error + app" where
  "prev_frame s =
     (if length (frames s) = 0 then Inl ZeroDivisionError
      else Inr (show_image s ((current_image_index s - 1) mod int (length (frames s)))))"

section \<open>Python floats\<close>

text \<open>
  \<^verbatim>\<open>create_gif\<close> computes the new width and the progress value in floats. A
  Python float is an IEEE binary64 number: every operation returns the
  representable number nearest to the exact result, ties to the even mantissa. The
  model rounds to 53 bits with an unbounded exponent, which is binary64 as long as no
  result leaves its exponent range (magnitudes from \<open>2^-1022\<close> to \<open>2^1024\<close>) and the
  ints converted are below \<open>2^53\<close>; pixel sizes and frame counts are far inside.
\<close>

text \<open>The number of binary digits of a positive integer (\<^verbatim>\<open>int.bit_length\<close>).\<close>

function bit_length :: "int \<Rightarrow> nat" where
  "bit_length n = (if n \<le> 0 then 0 else Suc (bit_length (n div 2)))"
  by pat_completeness auto
termination
  by (relation "measure nat") auto

declare bit_length.simps [simp del]


text \<open>
  For positive \<open>a\<close> and \<open>b\<close>, the exponent \<open>e\<close> with \<open>2^e \<le> a / b < 2^(e + 1)\<close>: the
  difference of the bit lengths, or one less.
\<close>

definition floor_log2 :: "int \<Rightarrow> int \<Rightarrow> int" where
  "floor_log2 a b =
     (let d = int (bit_length a) - int (bit_length b)
      in if (if 0 \<le> d then b * 2 ^ nat d \<le> a else b \<le> a * 2 ^ nat (- d)) then d else d - 1)"

text \<open>The integer nearest to \<open>n / d\<close>, a tie going to the even one.\<close>

definition round_half_even :: "int \<Rightarrow> int \<Rightarrow> int" where
  "round_half_even n d =
     (let q = n div d; r = n mod d
      in if 2 * r < d then q else if d < 2 * r then q + 1
         else if even q then q else q + 1)"

text \<open>A float is a pair of a mantissa and an exponent, of value \<open>m * 2^k\<close>.\<close>

type_synonym binary64 = "int \<times> int"

definition float_val :: "binary64 \<Rightarrow> real" where
  "float_val f = real_of_int (fst f) * 2 powi (snd f)"

text \<open>
  The float nearest to \<open>a / b\<close> for positive \<open>a\<close> and \<open>b\<close>: the quotient is scaled to a
  mantissa of 53 bits and rounded there. \<^verbatim>\<open>round_frac\<close> adds the sign and zero.
\<close>

definition round_pos :: "int \<Rightarrow> int \<Rightarrow> binary64" where
  "round_pos a b =
     (let k = floor_log2 a b - 52;
          n = (if k < 0 then a * 2 ^ nat (- k) else a);
          d = (if k < 0 then b else b * 2 ^ nat k)
      in (round_half_even n d, k))"

definition round_frac :: "int \<Rightarrow> int \<Rightarrow> binary64" where
  "round_frac a b =
     (if a = 0 then (0, 0)
      else (let (m, k) = round_pos \<bar>a\<bar> \<bar>b\<bar> in (sgn a * sgn b * m, k)))"

text \<open>
  \<^verbatim>\<open>a / b\<close> on two Python ints is the float nearest to the quotient, and raises
  ZeroDivisionError on 0. \<^verbatim>\<open>w * f\<close>, an int times a float, is the float nearest to the
  product. \<^verbatim>\<open>int(f)\<close> truncates towards zero.
\<close>

definition float_truediv :: "int \<Rightarrow> int \<Rightarrow> error + binary64" where
  "float_truediv a b = (if b = 0 then Inl ZeroDivisionError else Inr (round_frac a b))"

definition float_mul_int :: "int \<Rightarrow> binary64 \<Rightarrow> binary64" where
  "float_mul_int w f =
     (case f of (m, k) \<Rightarrow>
        if k < 0 then round_frac (w * m) (2 ^ nat (- k)) else round_frac (w * m * 2 ^ nat k) 1)"

definition float_int :: "binary64 \<Rightarrow> int" where
  "float_int f =
     (case f of (m, k) \<Rightarrow>
        if 0 \<le> k then m * 2 ^ nat k
        else if 0 \<le> m then m div 2 ^ nat (- k) else - ((- m) div 2 ^ nat (- k)))"

section \<open>Export\<close>

text \<open>
  \<^verbatim>\<open>create_gif\<close> talks to the file dialog, to PIL, rawpy and imageio. The model
  takes their answers from an environment and returns the calls it made, in
  order, so that what is passed to each library can be read off the result.
\<close>

record image =
  img_mode :: string
  img_size :: "int \<times> int"

datatype kwval = KInt int | KBool bool

type_synonym kwargs = "(string \<times> kwval) list"

datatype event =
    MessageWarning string string
  | GetSaveFileName string string
  | RawpyImread path
  | RawPostprocess path kwargs
  | ImageOpen path
  | Convert string
  | Resize "int \<times> int"
  | Thumbnail "int \<times> int"
  | Mimsave path "image list" string kwargs
  | MessageInformation string string

text \<open>
  \<^verbatim>\<open>QApplication.processEvents()\<close> runs the handlers of the events that are pending:
  button clicks, slider moves, timer ticks, even a second export. What one such call
  does is an answer of the environment too: the calls the handlers made, and the
  state they left or the exception that ended them. \<^verbatim>\<open>pending\<close> holds one entry for
  each call of \<^verbatim>\<open>processEvents\<close> during which something is pending; after the last
  entry nothing is.
\<close>

type_synonym handler = "app \<Rightarrow> event list \<times> (error + app)"

record env =
  save_file_name :: path
  rawpy_postprocess :: "path \<Rightarrow> kwargs \<Rightarrow> error + image"
  pil_open :: "path \<Rightarrow> error + image"
  pil_thumbnail :: "image \<Rightarrow> int \<times> int \<Rightarrow> image"
  mimsave :: "path \<Rightarrow> image list \<Rightarrow> string \<Rightarrow> kwargs \<Rightarrow> error option"
  pending :: "handler list"

text \<open>\<^verbatim>\<open>str.lower\<close>, \<^verbatim>\<open>str.upper\<close> (on ASCII letters) and \<^verbatim>\<open>str.endswith\<close>.\<close>

definition lower_char :: "char \<Rightarrow> char" where
  "lower_char c =
     (case map_of (zip ''ABCDEFGHIJKLMNOPQRSTUVWXYZ'' ''abcdefghijklmnopqrstuvwxyz'') c of
        Some d \<Rightarrow> d | None \<Rightarrow> c)"

definition upper_char :: "char \<Rightarrow> char" where
  "upper_char c =
     (case map_of (zip ''abcdefghijklmnopqrstuvwxyz'' ''ABCDEFGHIJKLMNOPQRSTUVWXYZ'') c of
        Some d \<Rightarrow> d | None \<Rightarrow> c)"

definition lower :: "string \<Rightarrow> string" where
  "lower = map lower_char"

definition upper :: "string \<Rightarrow> string" where
  "upper = map upper_char"

definition endswith :: "string \<Rightarrow> string \<Rightarrow> bool" where
  "endswith s t = (length t \<le> length s \<and> drop (length s - length t) s = t)"

text \<open>
  \<^verbatim>\<open>int(resolution[:-1])\<close> on a string of decimal digits, as every item of the
  resolution combo but "Original" is ("1080p", "720p", "480p", "360p"); ValueError
  otherwise.
\<close>

definition digit_val :: "char \<Rightarrow> int option" where
  "digit_val c = map_of (zip ''0123456789'' [0, 1, 2, 3, 4, 5, 6, 7, 8, 9]) c"

fun int_of_digits :: "int \<Rightarrow> string \<Rightarrow> error + int" where
  "int_of_digits acc [] = Inr acc"
| "int_of_digits acc (c # cs) =
     (case digit_val c of None \<Rightarrow> Inl ValueError
      | Some d \<Rightarrow> int_of_digits (10 * acc + d) cs)"

definition int_of_str :: "string \<Rightarrow> error + int" where
  "int_of_str t = (if t = [] then Inl ValueError else int_of_digits 0 t)"

text \<open>
  The resolution step of \<^verbatim>\<open>create_gif\<close>:
  \<^verbatim>\<open>ratio = height / img.size[1]; new_width = int(img.size[0] * ratio)\<close>.
\<close>

definition new_width :: "int \<Rightarrow> int \<times> int \<Rightarrow> error + int" where
  "new_width height sz =
     (case float_truediv height (snd sz) of
        Inl err \<Rightarrow> Inl err
      | Inr ratio \<Rightarrow> Inr (float_int (float_mul_int (fst sz) ratio)))"

text \<open>\<^verbatim>\<open>Image.resize\<close> refuses a size with a side below 1.\<close>

definition pil_resize :: "image \<Rightarrow> int \<times> int \<Rightarrow> error + image" where
  "pil_resize img sz =
     (if fst sz < 1 \<or> snd sz < 1 then Inl ValueError else Inr (img\<lparr>img_size := sz\<rparr>))"

definition apply_resolution :: "string \<Rightarrow> image \<Rightarrow> event list \<times> (error + image)" where
  "apply_resolution resolution img =
     (if resolution \<noteq> ''Original'' then
        (case int_of_str (butlast resolution) of
           Inl e \<Rightarrow> ([], Inl e)
         | Inr height \<Rightarrow>
             (case new_width height (img_size img) of
                Inl e \<Rightarrow> ([], Inl e)
              | Inr w \<Rightarrow> ([Resize (w, height)], pil_resize img (w, height))))
      else ([], Inr img))"

text \<open>The decode step: \<^verbatim>\<open>raw.postprocess()\<close> is called with no argument.\<close>

definition decode :: "env \<Rightarrow> path \<Rightarrow> event list \<times> (error + image)" where
  "decode e file_name =
     (if endswith (lower file_name) ''.dng''
      then ([RawpyImread file_name, RawPostprocess file_name []],
            rawpy_postprocess e file_name [])
      else ([ImageOpen file_name], pil_open e file_name))"

definition convert_rgba :: "image \<Rightarrow> event list \<times> image" where
  "convert_rgba img =
     (if img_mode img = ''RGBA'' then ([Convert ''RGB''], img\<lparr>img_mode := ''RGB''\<rparr>)
      else ([], img))"

definition apply_optimize :: "env \<Rightarrow> bool \<Rightarrow> image \<Rightarrow> event list \<times> image" where
  "apply_optimize e opt img =
     (if opt then ([Thumbnail (800, 800)], pil_thumbnail e img (800, 800)) else ([], img))"

text \<open>The body of the loop over \<^verbatim>\<open>self.images\<close>, up to \<^verbatim>\<open>images.append\<close>.\<close>

definition process_frame :: "env \<Rightarrow> app \<Rightarrow> path \<Rightarrow> event list \<times> (error + image)" where
  "process_frame e s file_name =
     (case decode e file_name of
        (ev1, Inl err) \<Rightarrow> (ev1, Inl err)
      | (ev1, Inr img) \<Rightarrow>
          (let (ev2, img2) = convert_rgba img
           in case apply_resolution (resolution_combo s) img2 of
                (ev3, Inl err) \<Rightarrow> (ev1 @ ev2 @ ev3, Inl err)
              | (ev3, Inr img3) \<Rightarrow>
                  (let (ev4, img4) = apply_optimize e (optimize_toggle s) img3
                   in (ev1 @ ev2 @ ev3 @ ev4, Inr img4))))"

text \<open>
  The loop \<^verbatim>\<open>for i, file_name in enumerate(self.images)\<close>. The iterator holds the
  list object \<open>r\<close> that \<^verbatim>\<open>self.images\<close> named when the loop began and an index; each
  step it stops if the index has reached the length the object has by then, and
  yields the element at the index otherwise. After each frame the progress bar is
  set to \<^verbatim>\<open>int((i + 1) / len(self.images) * 50)\<close>, with the list \<^verbatim>\<open>self.images\<close>
  names by then, and \<^verbatim>\<open>processEvents\<close> runs the pending handlers, which may change
  the settings, the list object and \<^verbatim>\<open>self.images\<close>. An exception, of the body or of a
  handler, leaves the loop and \<^verbatim>\<open>create_gif\<close>.
\<close>

function load_frames ::
  "env \<Rightarrow> handler list \<Rightarrow> ref \<Rightarrow> nat \<Rightarrow> app \<Rightarrow> event list \<times> app \<times> (error + image list)" where
  "load_frames e pend r i s =
     (if i < length (heap s r) then
        (case process_frame e s (heap s r ! i) of
           (ev, Inl err) \<Rightarrow> (ev, s, Inl err)
         | (ev, Inr img) \<Rightarrow>
             (case float_truediv (int (i + 1)) (int (length (frames s))) of
                Inl err \<Rightarrow> (ev, s, Inl err)
              | Inr part \<Rightarrow>
                  (let s1 = s\<lparr>progress_bar := (progress_bar s)
                             \<lparr>bar_value := float_int (float_mul_int 50 part)\<rparr>\<rparr>
                   in case pend of
                        [] \<Rightarrow>
                          (case load_frames e [] r (Suc i) s1 of
                             (ev', s2, Inl err) \<Rightarrow> (ev @ ev', s2, Inl err)
                           | (ev', s2, Inr imgs) \<Rightarrow> (ev @ ev', s2, Inr (img # imgs)))
                      | h # rest \<Rightarrow>
                          (case h s1 of
                             (evh, Inl err) \<Rightarrow> (ev @ evh, s1, Inl err)
                           | (evh, Inr s2) \<Rightarrow>
                               (case load_frames e rest r (Suc i) s2 of
                                  (ev', s3, Inl err) \<Rightarrow> (ev @ evh @ ev', s3, Inl err)
                                | (ev', s3, Inr imgs) \<Rightarrow>
                                    (ev @ evh @ ev', s3, Inr (img # imgs)))))))
      else ([], s, Inr []))"
  by pat_completeness auto
termination
  by (relation "measures [\<lambda>(e, pend, r, i, s). length pend,
        \<lambda>(e, pend, r, i, s). length (heap s r) - i]") auto

declare load_frames.simps [simp del]

definition gif_kwargs :: "app \<Rightarrow> kwargs" where
  "gif_kwargs s =
     [(''fps'', KInt (fps s)), (''loop'', KInt (loop_count_spin s))] @
     (if optimize_toggle s
      then [(''optimize'', KBool True), (''quality'', KInt (slider_value (quality_slider s)))]
      else [])"

definition webp_kwargs :: "app \<Rightarrow> kwargs" where
  "webp_kwargs s =
     [(''fps'', KInt (fps s)), (''loop'', KInt (loop_count_spin s)),
      (''quality'', KInt (slider_value (quality_slider s)))]"

definition finish_export :: "app \<Rightarrow> string \<Rightarrow> path \<Rightarrow> event list \<times> app \<times> error option" where
  "finish_export s output_format output_file =
     ([MessageInformation ''Success''
         (upper output_format @ '' created successfully: '' @ output_file)],
      s\<lparr>progress_bar := (progress_bar s)\<lparr>bar_value := 100\<rparr>\<rparr>, None)"

definition encode :: "env \<Rightarrow> app \<Rightarrow> string \<Rightarrow> path \<Rightarrow> image list \<Rightarrow> event list \<times> app \<times> error option" where
  "encode e s output_format output_file imgs =
     (if imgs \<noteq> [] then
        (if output_format = ''gif'' then
           (let kw = gif_kwargs s; ev = [Mimsave output_file imgs ''gif'' kw]
            in case mimsave e output_file imgs ''gif'' kw of
                 Some err \<Rightarrow> (ev, s, Some err)
               | None \<Rightarrow> (let (ev', s', r) = finish_export s output_format output_file
                           in (ev @ ev', s', r)))
         else if output_format = ''webp'' then
           (let kw = webp_kwargs s; ev = [Mimsave output_file imgs ''webp'' kw]
            in case mimsave e output_file imgs ''webp'' kw of
                 Some err \<Rightarrow> (ev, s, Some err)
               | None \<Rightarrow> (let (ev', s', r) = finish_export s output_format output_file
                           in (ev @ ev', s', r)))
         else finish_export s output_format output_file)
      else ([], s, None))"

text \<open>
  \<^verbatim>\<open>create_gif\<close>: the calls made, the state afterwards, and the exception that
  ended it, if one did.
\<close>

definition create_gif :: "env \<Rightarrow> app \<Rightarrow> event list \<times> app \<times> error option" where
  "create_gif e s =
     (if frames s = [] then
        ([MessageWarning ''No Images'' ''Please select images before creating a GIF.''], s, None)
      else
        (let output_format = lower (output_format_combo s);
             file_filter = upper output_format @ '' Files (*.'' @ output_format @ '')'';
             ev0 = [GetSaveFileName (''Save '' @ upper output_format) file_filter];
             output_file = save_file_name e
         in if output_file \<noteq> [] then
              (let s1 = s\<lparr>progress_bar := \<lparr>bar_visible = True, bar_value = 0\<rparr>\<rparr>
               in case load_frames e (pending e) (images s1) 0 s1 of
                    (ev1, s2, Inl err) \<Rightarrow> (ev0 @ ev1, s2, Some err)
                  | (ev1, s2, Inr imgs) \<Rightarrow>
                      (let (ev2, s3, r) = encode e s2 output_format output_file imgs
                       in (ev0 @ ev1 @ ev2, s3, r)))
            else (ev0, s, None)))"

section \<open>The desqueeze script (src/PhotoDesqueezer.py)\<close>

text \<open>
  The arguments \<^verbatim>\<open>desqueeze_image\<close> gives to \<^verbatim>\<open>raw.postprocess\<close>:
  \<^verbatim>\<open>use_camera_wb=True\<close>.
\<close>

definition desqueeze_postprocess_kwargs :: kwargs where
  "desqueeze_postprocess_kwargs = [(''use_camera_wb'', KBool True)]"

section \<open>Sample inputs\<close>

text \<open>
  An environment in which every library call succeeds and no event is pending, and
  one decoded image.
\<close>

definition sample_image :: image where
  "sample_image = \<lparr>img_mode = ''RGB'', img_size = (1000, 1080)\<rparr>"

definition sample_env :: env where
  "sample_env = \<lparr>save_file_name = ''out.gif'',
     rawpy_postprocess = (\<lambda>p kw. Inr sample_image),
     pil_open = (\<lambda>p. Inr sample_image),
     pil_thumbnail = (\<lambda>img sz. img),
     mimsave = (\<lambda>f imgs fmt kw. None),
     pending = []\<rparr>"

text \<open>Add one frame, undo, redo, add a second frame.\<close>

definition corrupting_run :: app where
  "corrupting_run = add_images (redo (undo (add_images init [''a.png'']))) [''b.png'']"


text \<open>
  An environment like \<^verbatim>\<open>sample_env\<close>, but with a slider move to 40 pending at the
  first \<^verbatim>\<open>processEvents\<close>.
\<close>

definition slider_moved_env :: env where
  "slider_moved_env =
     sample_env\<lparr>pending :=
       [\<lambda>s. ([], Inr (s\<lparr>quality_slider := setValue 40 (quality_slider s)\<rparr>))]\<rparr>"

text \<open>Three frames, the second one selected.\<close>

definition three_frames :: app where
  "three_frames = show_image (add_images init [''a.png'', ''b.png'', ''c.png'']) 1"

section \<open>What the list widget and the preview leave alone\<close>

lemma update_image_list_keeps [simp]:
  "heap (update_image_list s) = heap s"
  "nxt (update_image_list s) = nxt s"
  "images (update_image_list s) = images s"
  "undo_stack (update_image_list s) = undo_stack s"
  "redo_stack (update_image_list s) = redo_stack s"
  "frames (update_image_list s) = frames s"
  by (simp_all add: update_image_list_def update_thumbnail_view_def frames_def)

lemma show_image_keeps [simp]:
  "heap (show_image s i) = heap s"
  "nxt (show_image s i) = nxt s"
  "images (show_image s i) = images s"
  "undo_stack (show_image s i) = undo_stack s"
  "redo_stack (show_image s i) = redo_stack s"
  "frames (show_image s i) = frames s"
  by (simp_all add: show_image_def frames_def)

section \<open>Undo and redo after one mutation\<close>

lemma undo_top:
  assumes "undo_stack s = us @ [(k, a, b)]"
  shows "heap (undo s) = heap s" "images (undo s) = a" "nxt (undo s) = nxt s"
    "undo_stack (undo s) = us" "redo_stack (undo s) = redo_stack s @ [(k, a, b)]"
  using assms by (simp_all add: undo_def Let_def)

lemma redo_top:
  assumes "redo_stack s = rs @ [(k, a, b)]"
  shows "heap (redo s) = heap s" "images (redo s) = b" "nxt (redo s) = nxt s"
    "redo_stack (redo s) = rs" "undo_stack (redo s) = undo_stack s @ [(k, a, b)]"
  using assms by (simp_all add: redo_def Let_def)

lemma add_images_effect:
  assumes "images s < nxt s"
  shows "images (add_images s files) = images s"
    "undo_stack (add_images s files) = undo_stack s @ [(''add_images'', nxt s, Suc (nxt s))]"
    "redo_stack (add_images s files) = []"
    "heap (add_images s files) (nxt s) = frames s"
    "heap (add_images s files) (Suc (nxt s)) = frames s @ files"
    "frames (add_images s files) = frames s @ files"
  using assms
  by (simp_all add: add_images_def list_copy_def list_extend_def add_to_undo_stack_def
      frames_def Let_def)

lemma remove_effect:
  assumes "images s < nxt s" "remove_selected_frame s = Inr s'"
    "currentRow (image_list s) \<noteq> - 1"
  shows "images s' = images s"
    "undo_stack s' = undo_stack s @ [(''remove_frame'', nxt s, Suc (nxt s))]"
    "redo_stack s' = []"
    "heap s' (nxt s) = frames s"
    "heap s' (Suc (nxt s)) = frames s'"
    "del_item (frames s) (currentRow (image_list s)) = Inr (frames s')"
  using assms
  by (auto simp add: remove_selected_frame_def list_copy_def add_to_undo_stack_def
      frames_def Let_def split: sum.splits if_splits)

text \<open>
  C1. In a state whose live list is an allocated object, after one mutation that
  returns (\<^verbatim>\<open>add_images\<close>, or \<^verbatim>\<open>remove_selected_frame\<close> with a current row),
  \<^verbatim>\<open>undo\<close> gives back the frame sequence held before the mutation, and
  \<^verbatim>\<open>undo\<close> followed by \<^verbatim>\<open>redo\<close> gives the frame sequence held after it.
\<close>

theorem undo_redo_single_mutation:
  assumes "images s < nxt s" and "mutate s m = Inr s'"
    and "m = RemoveSelectedFrame \<longrightarrow> currentRow (image_list s) \<noteq> - 1"
  shows "frames (undo s') = frames s \<and> frames (redo (undo s')) = frames s'"
proof (cases m)
  case (AddImages files)
  with assms have s': "s' = add_images s files" by simp
  note e = add_images_effect [OF assms(1), of files]
  note u = undo_top [OF e(2)]
  have r: "redo_stack (undo s') = [] @ [(''add_images'', nxt s, Suc (nxt s))]"
    using u(5) e(3) s' by simp
  note rr = redo_top [OF r]
  show ?thesis using e u rr s' by (simp add: frames_def)
next
  case RemoveSelectedFrame
  with assms have rm: "remove_selected_frame s = Inr s'"
    and cr: "currentRow (image_list s) \<noteq> - 1"
    by simp_all
  note e = remove_effect [OF assms(1) rm cr]
  note u = undo_top [OF e(2)]
  have r: "redo_stack (undo s') = [] @ [(''remove_frame'', nxt s, Suc (nxt s))]"
    using u(5) e(3) by simp
  note rr = redo_top [OF r]
  show ?thesis using e u rr by (simp add: frames_def)
qed

theorem undo_redo_single_mutation_witness:
  "images init < nxt init \<and>
   mutate init (AddImages [''a.png'', ''b.png'']) = Inr (add_images init [''a.png'', ''b.png'']) \<and>
   frames (undo (add_images init [''a.png'', ''b.png''])) = frames init \<and>
   frames (redo (undo (add_images init [''a.png'', ''b.png'']))) =
     frames (add_images init [''a.png'', ''b.png''])"
  using undo_redo_single_mutation [of init "AddImages [''a.png'', ''b.png'']"
      "add_images init [''a.png'', ''b.png'']"]
  by (simp add: init_def)

section \<open>Snapshots on the stacks\<close>

lemma add_images_store:
  assumes "images s < nxt s"
  shows "nxt (add_images s files) = Suc (Suc (nxt s))"
    "r < nxt s \<Longrightarrow> r \<noteq> images s \<Longrightarrow> heap (add_images s files) r = heap s r"
  using assms
  by (simp_all add: add_images_def list_copy_def list_extend_def add_to_undo_stack_def
      frames_def Let_def)

lemma add_images_settings:
  "fps (add_images s files) = fps s"
  "optimize_toggle (add_images s files) = optimize_toggle s"
  "quality_slider (add_images s files) = quality_slider s"
  "resolution_combo (add_images s files) = resolution_combo s"
  "loop_count_spin (add_images s files) = loop_count_spin s"
  "output_format_combo (add_images s files) = output_format_combo s"
  "progress_bar (add_images s files) = progress_bar s"
  by (simp_all add: add_images_def list_copy_def list_extend_def add_to_undo_stack_def
      update_image_list_def update_thumbnail_view_def show_image_def Let_def)

lemma init_fields:
  "images init = 0" "nxt init = 1" "undo_stack init = []" "redo_stack init = []"
  "frames init = []" "heap init r = []"
  by (simp_all add: init_def frames_def)

lemma first_add:
  "images (add_images init [''a.png'']) = 0"
  "nxt (add_images init [''a.png'']) = 3"
  "undo_stack (add_images init [''a.png'']) = [(''add_images'', 1, 2)]"
  "redo_stack (add_images init [''a.png'']) = []"
  "heap (add_images init [''a.png'']) 1 = []"
  "heap (add_images init [''a.png'']) 2 = [''a.png'']"
  "frames (add_images init [''a.png'']) = [''a.png'']"
  using add_images_effect [of init "[''a.png'']"] add_images_store(1) [of init "[''a.png'']"]
  by (simp_all add: init_fields numeral_3_eq_3 numeral_2_eq_2)

lemma after_undo_redo:
  "images (redo (undo (add_images init [''a.png'']))) = 2"
  "nxt (redo (undo (add_images init [''a.png'']))) = 3"
  "undo_stack (redo (undo (add_images init [''a.png'']))) = [(''add_images'', 1, 2)]"
  "heap (redo (undo (add_images init [''a.png'']))) = heap (add_images init [''a.png''])"
proof -
  have u: "undo_stack (add_images init [''a.png'']) = [] @ [(''add_images'', 1, 2)]"
    by (simp add: first_add)
  note a = undo_top [OF u]
  have r: "redo_stack (undo (add_images init [''a.png''])) = [] @ [(''add_images'', 1, 2)]"
    using a(5) by (simp add: first_add)
  note b = redo_top [OF r]
  show "images (redo (undo (add_images init [''a.png'']))) = 2" using b(2) .
  show "nxt (redo (undo (add_images init [''a.png'']))) = 3"
    using b(3) a(3) by (simp add: first_add)
  show "undo_stack (redo (undo (add_images init [''a.png'']))) = [(''add_images'', 1, 2)]"
    using b(5) a(4) by simp
  show "heap (redo (undo (add_images init [''a.png'']))) = heap (add_images init [''a.png''])"
    using b(1) a(1) by simp
qed

lemma corrupting_run_fields:
  "images corrupting_run = 2"
  "undo_stack corrupting_run = [(''add_images'', 1, 2), (''add_images'', 3, 4)]"
  "redo_stack corrupting_run = []"
  "heap corrupting_run 1 = []"
  "heap corrupting_run 2 = [''a.png'', ''b.png'']"
  "heap corrupting_run 3 = [''a.png'']"
proof -
  let ?s = "redo (undo (add_images init [''a.png'']))"
  have wf: "images ?s < nxt ?s" by (simp add: after_undo_redo)
  have fr: "frames ?s = [''a.png'']" by (simp add: frames_def after_undo_redo first_add)
  note e = add_images_effect [OF wf, where files = "[''b.png'']"]
  note st = add_images_store [OF wf, where files = "[''b.png'']"]
  show "images corrupting_run = 2" using e(1) by (simp add: corrupting_run_def after_undo_redo)
  show "undo_stack corrupting_run = [(''add_images'', 1, 2), (''add_images'', 3, 4)]"
    using e(2) by (simp add: corrupting_run_def after_undo_redo numeral_3_eq_3 eval_nat_numeral)
  show "redo_stack corrupting_run = []" using e(3) by (simp add: corrupting_run_def)
  show "heap corrupting_run 1 = []"
    using st(2) [of 1] first_add(5) by (simp add: corrupting_run_def after_undo_redo)
  show "heap corrupting_run 2 = [''a.png'', ''b.png'']"
    using e(6) e(1) fr by (simp add: corrupting_run_def frames_def after_undo_redo)
  show "heap corrupting_run 3 = [''a.png'']"
    using e(4) fr by (simp add: corrupting_run_def after_undo_redo)
qed

text \<open>
  C2. The claim asks that no entry on a stack changes after it is recorded. The
  run \<^verbatim>\<open>add_images(["a.png"]); undo(); redo(); add_images(["b.png"])\<close> breaks it:
  right after the first action the frame sequence is \<open>[a.png]\<close> and the entry's
  snapshot-after (object 2) holds \<open>[a.png]\<close>; \<^verbatim>\<open>redo\<close> makes object 2 the live list,
  the second \<^verbatim>\<open>add_images\<close> extends it in place, and the first entry, still on the
  undo stack, now holds \<open>[a.png, b.png]\<close>. Undoing twice and redoing once then shows
  two frames where the first action left one.
\<close>

theorem snapshot_changed_after_redo:
  "frames (add_images init [''a.png'']) = [''a.png''] \<and>
   undo_stack (add_images init [''a.png'']) = [(''add_images'', 1, 2)] \<and>
   heap (add_images init [''a.png'']) 2 = [''a.png''] \<and>
   undo_stack corrupting_run = [(''add_images'', 1, 2), (''add_images'', 3, 4)] \<and>
   heap corrupting_run 2 = [''a.png'', ''b.png''] \<and>
   frames (redo (undo (undo corrupting_run))) = [''a.png'', ''b.png'']"
proof -
  have u1: "undo_stack corrupting_run = [(''add_images'', 1, 2)] @ [(''add_images'', 3, 4)]"
    by (simp add: corrupting_run_fields)
  note a = undo_top [OF u1]
  have u2: "undo_stack (undo corrupting_run) = [] @ [(''add_images'', 1, 2)]"
    using a(4) by simp
  note b = undo_top [OF u2]
  have r: "redo_stack (undo (undo corrupting_run)) =
      [(''add_images'', 3, 4)] @ [(''add_images'', 1, 2)]"
    using b(5) a(5) by (simp add: corrupting_run_fields)
  note c = redo_top [OF r]
  have "frames (redo (undo (undo corrupting_run))) = heap corrupting_run 2"
    using c(1,2) b(1) a(1) by (simp add: frames_def)
  then show ?thesis by (simp add: first_add corrupting_run_fields)
qed

section \<open>Playback on an empty project\<close>

text \<open>
  C3. With no frame, \<^verbatim>\<open>next_frame\<close> and \<^verbatim>\<open>prev_frame\<close> raise ZeroDivisionError
  (the modulus is taken before \<^verbatim>\<open>show_image\<close> can test the range), and
  \<^verbatim>\<open>toggle_play\<close> changes the state: it starts the timer whose ticks call
  \<^verbatim>\<open>next_frame\<close>.
\<close>

theorem empty_project_navigation_raises:
  "frames init = [] \<and>
   next_frame init = Inl ZeroDivisionError \<and> prev_frame init = Inl ZeroDivisionError \<and>
   is_playing (projr (toggle_play init)) \<and> isActive (play_timer (projr (toggle_play init))) \<and>
   toggle_play init \<noteq> Inr init"
  by (simp add: next_frame_def prev_frame_def toggle_play_def init_def frames_def)

section \<open>Timer period\<close>

text \<open>
  C5 as stated fails: at 24 fps \<^verbatim>\<open>toggle_play\<close> starts the timer with 41 ms, and
  \<open>round (1000 / 24)\<close> is 42.
\<close>

theorem timer_period_not_rounded:
  "interval (play_timer (projr (toggle_play init))) = 41 \<and>
   round (1000 / 24 :: real) = (42::int)"
  by (simp add: toggle_play_def init_def round_def)

text \<open>
  C5, amended. For every positive fps, \<^verbatim>\<open>toggle_play\<close> on a stopped player returns
  and starts the timer with period \<open>1000 div fps\<close>, the floor of \<open>1000 / fps\<close>.
\<close>

theorem timer_period_floor:
  assumes "\<not> is_playing s" and "0 < fps s"
  shows "toggle_play s =
           Inr (s\<lparr>play_timer := \<lparr>isActive = True, interval = 1000 div fps s\<rparr>,
                  play_button_text := ''Pause'', is_playing := True\<rparr>) \<and>
         1000 div fps s = \<lfloor>1000 / real_of_int (fps s)\<rfloor>"
  using assms floor_divide_of_int_eq [of 1000 "fps s", where ?'a = real]
  by (simp add: toggle_play_def)

theorem timer_period_floor_witness:
  "interval (play_timer (projr (toggle_play (update_fps init 24)))) = 41 \<and>
   interval (play_timer (projr (toggle_play (update_fps init 30)))) = 33 \<and>
   interval (play_timer (projr (toggle_play (update_fps init 60)))) = 16 \<and>
   \<lfloor>1000 / (60::real)\<rfloor> = (16::int)"
  using timer_period_floor [of "update_fps init 24"] timer_period_floor [of "update_fps init 30"]
    timer_period_floor [of "update_fps init 60"]
  by (simp add: update_fps_def init_def)

section \<open>Removing a frame\<close>

lemma deleted_nth:
  assumes "i < length xs"
  shows "length (take i xs @ drop (Suc i) xs) = length xs - 1"
    and "j < i \<Longrightarrow> (take i xs @ drop (Suc i) xs) ! j = xs ! j"
    and "i \<le> j \<Longrightarrow> j < length xs - 1 \<Longrightarrow> (take i xs @ drop (Suc i) xs) ! j = xs ! Suc j"
  using assms by (auto simp add: nth_append min_def)

lemma remove_frames:
  assumes "currentRow (image_list s) = int i" and "i < length (frames s)"
  shows "\<exists>s'. remove_selected_frame s = Inr s' \<and>
           frames s' = take i (frames s) @ drop (Suc i) (frames s)"
  using assms
  by (simp add: remove_selected_frame_def list_copy_def add_to_undo_stack_def del_item_def
      Let_def frames_def)

lemma three_frames_fields:
  "frames three_frames = [''a.png'', ''b.png'', ''c.png'']"
  "currentRow (image_list three_frames) = 1"
proof -
  have f: "frames (add_images init [''a.png'', ''b.png'', ''c.png'']) =
      [''a.png'', ''b.png'', ''c.png'']"
    using add_images_effect(6) [of init] by (simp add: init_fields)
  show "frames three_frames = [''a.png'', ''b.png'', ''c.png'']"
    by (simp add: three_frames_def f)
  show "currentRow (image_list three_frames) = 1"
    by (simp add: three_frames_def show_image_def f)
qed

text \<open>
  C6. When the current row is an index \<open>i\<close> of the frame list,
  \<^verbatim>\<open>remove_selected_frame\<close> returns and the new frame sequence is the old one with
  position \<open>i\<close> deleted: one frame fewer, the frames before \<open>i\<close> where they were, the
  frames after \<open>i\<close> one place down. With no current row (\<open>-1\<close>) nothing changes.
\<close>

theorem remove_selected_frame_deletes:
  "(currentRow (image_list s) = int i \<and> i < length (frames s) \<longrightarrow>
      (\<exists>s'. remove_selected_frame s = Inr s' \<and>
         frames s' = take i (frames s) @ drop (Suc i) (frames s) \<and>
         length (frames s') = length (frames s) - 1 \<and>
         (\<forall>j. j < i \<longrightarrow> frames s' ! j = frames s ! j) \<and>
         (\<forall>j. i \<le> j \<and> j < length (frames s) - 1 \<longrightarrow> frames s' ! j = frames s ! Suc j))) \<and>
   (currentRow (image_list s) = - 1 \<longrightarrow> remove_selected_frame s = Inr s)"
proof (intro conjI impI)
  assume a: "currentRow (image_list s) = int i \<and> i < length (frames s)"
  then obtain s' where s': "remove_selected_frame s = Inr s'"
    "frames s' = take i (frames s) @ drop (Suc i) (frames s)"
    using remove_frames by blast
  from a have i: "i < length (frames s)" by simp
  show "\<exists>s'. remove_selected_frame s = Inr s' \<and>
         frames s' = take i (frames s) @ drop (Suc i) (frames s) \<and>
         length (frames s') = length (frames s) - 1 \<and>
         (\<forall>j. j < i \<longrightarrow> frames s' ! j = frames s ! j) \<and>
         (\<forall>j. i \<le> j \<and> j < length (frames s) - 1 \<longrightarrow> frames s' ! j = frames s ! Suc j)"
    using s' deleted_nth [OF i] by (intro exI [of _ s']) simp
next
  assume "currentRow (image_list s) = - 1"
  then show "remove_selected_frame s = Inr s" by (simp add: remove_selected_frame_def)
qed

theorem remove_selected_frame_deletes_witness:
  "frames (projr (remove_selected_frame three_frames)) = [''a.png'', ''c.png''] \<and>
   remove_selected_frame init = Inr init"
proof -
  have "\<exists>s'. remove_selected_frame three_frames = Inr s' \<and>
          frames s' = take 1 (frames three_frames) @ drop (Suc 1) (frames three_frames)"
    using remove_selected_frame_deletes [of three_frames 1]
    by (simp only: three_frames_fields) auto
  then have "\<exists>s'. remove_selected_frame three_frames = Inr s' \<and>
      frames s' = [''a.png'', ''c.png'']"
    by (simp add: three_frames_fields)
  moreover have "remove_selected_frame init = Inr init"
    using remove_selected_frame_deletes [of init 0] by (simp add: init_def)
  ultimately show ?thesis by auto
qed

section \<open>The preview index\<close>

text \<open>
  C10 as stated fails: \<^verbatim>\<open>__init__\<close> assigns \<^verbatim>\<open>current_image_index = 0\<close> while the
  frame list is empty, and 0 is not inside \<open>[0, 0)\<close>.
\<close>

theorem initial_index_out_of_range:
  "current_image_index init = 0 \<and> frames init = [] \<and>
   \<not> (0 \<le> current_image_index init \<and>
      current_image_index init < int (length (frames init)))"
  by (simp add: init_def frames_def)

text \<open>
  C10, amended. For an index outside \<open>[0, N)\<close>, \<^verbatim>\<open>show_image\<close> returns the state it was
  given, whole. For any index, it either returns that state or sets
  \<^verbatim>\<open>current_image_index\<close> to the index, which is then inside \<open>[0, N)\<close>: the assignment
  in \<^verbatim>\<open>show_image\<close>, the only one after \<^verbatim>\<open>__init__\<close>, is of a value in range.
\<close>

theorem show_image_out_of_range:
  "(\<not> (0 \<le> i \<and> i < int (length (frames s))) \<longrightarrow> show_image s i = s) \<and>
   (show_image s i = s \<or>
     (current_image_index (show_image s i) = i \<and> 0 \<le> i \<and>
      i < int (length (frames (show_image s i)))))"
  by (simp add: show_image_def frames_def)

theorem show_image_out_of_range_witness:
  "show_image init 0 = init \<and> show_image three_frames 3 = three_frames \<and>
   show_image three_frames (- 1) = three_frames"
  using show_image_out_of_range [of 0 init] show_image_out_of_range [of 3 three_frames]
    show_image_out_of_range [of "- 1" three_frames]
  by (simp add: init_fields three_frames_fields)

section \<open>Export\<close>

text \<open>
  C7. With no frame, \<^verbatim>\<open>create_gif\<close> shows the "No Images" warning and returns: no
  file dialog, no decoding, no call of the encoder, and the state it was given.
\<close>

theorem create_gif_empty_project:
  "frames s = [] \<Longrightarrow>
   create_gif e s =
     ([MessageWarning ''No Images'' ''Please select images before creating a GIF.''], s, None)"
  by (simp add: create_gif_def)

theorem create_gif_empty_project_witness:
  "frames init = [] \<and>
   create_gif sample_env init =
     ([MessageWarning ''No Images'' ''Please select images before creating a GIF.''], init, None)"
  using create_gif_empty_project [of init sample_env] by (simp add: init_fields)

section \<open>Rounding to a float\<close>

lemma bit_length_pos: "0 < n \<Longrightarrow> bit_length n = Suc (bit_length (n div 2))"
  by (simp add: bit_length.simps)

lemma bit_length_bounds:
  "0 < n \<Longrightarrow> 2 ^ (bit_length n - 1) \<le> n \<and> n < 2 ^ bit_length n"
proof (induction n rule: bit_length.induct)
  case (1 n)
  show ?case
  proof (cases "n = 1")
    case True
    then show ?thesis by (simp add: bit_length.simps)
  next
    case False
    with "1.prems" have h: "0 < n div 2" by simp
    have n: "\<not> n \<le> 0" using "1.prems" by simp
    note ih = "1.IH" [OF n h]
    obtain B where B: "bit_length (n div 2) = Suc B"
      using bit_length_pos [OF h] by simp
    have bl: "bit_length n = Suc (Suc B)"
      using bit_length_pos [OF "1.prems"] B by simp
    from ih B have lo: "(2::int) ^ B \<le> n div 2" and hi: "n div 2 < 2 * 2 ^ B" by simp_all
    have "2 * (2::int) ^ B \<le> n" using lo by linarith
    moreover have "n < 2 * (2 * 2 ^ B)" using hi by linarith
    ultimately show ?thesis by (simp add: bl)
  qed
qed

lemma floor_log2_lower:
  assumes "0 < a" and "0 < b"
  shows "2 powi (floor_log2 a b) \<le> real_of_int a / real_of_int b"
proof -
  define d where "d = int (bit_length a) - int (bit_length b)"
  let ?c = "if 0 \<le> d then b * 2 ^ nat d \<le> a else b \<le> a * 2 ^ nat (- d)"
  have fl: "floor_log2 a b = (if ?c then d else d - 1)"
    by (simp add: floor_log2_def d_def Let_def)
  have bpos: "0 < real_of_int b" using assms by simp
  show ?thesis
  proof (cases ?c)
    case True
    show ?thesis
    proof (cases "0 \<le> d")
      case True
      with \<open>?c\<close> have "b * 2 ^ nat d \<le> a" by simp
      then have "real_of_int (b * 2 ^ nat d) \<le> real_of_int a" by linarith
      then have "real_of_int b * 2 ^ nat d \<le> real_of_int a" by simp
      then have "2 ^ nat d \<le> real_of_int a / real_of_int b"
        using bpos by (simp add: pos_le_divide_eq mult.commute)
      moreover have "(2::real) powi d = 2 ^ nat d" using True by (simp add: power_int_def)
      ultimately show ?thesis using \<open>?c\<close> fl by simp
    next
      case False
      with \<open>?c\<close> have "b \<le> a * 2 ^ nat (- d)" by simp
      then have "real_of_int b \<le> real_of_int (a * 2 ^ nat (- d))" by linarith
      then have "real_of_int b \<le> real_of_int a * 2 ^ nat (- d)" by simp
      then have "1 / 2 ^ nat (- d) \<le> real_of_int a / real_of_int b"
        using bpos by (simp add: field_simps)
      moreover have "(2::real) powi d = 1 / 2 ^ nat (- d)"
        using False by (simp add: power_int_def field_simps)
      ultimately show ?thesis using \<open>?c\<close> fl by simp
    qed
  next
    case False
    obtain A where A: "bit_length a = Suc A" using bit_length_pos [OF assms(1)] by simp
    have alo: "(2::int) ^ A \<le> a" using bit_length_bounds [OF assms(1)] A by simp
    have bhi: "b < 2 ^ bit_length b" using bit_length_bounds [OF assms(2)] by simp
    have d1: "d - 1 = int A - int (bit_length b)" by (simp add: d_def A)
    have "(2::real) powi (d - 1) = 2 ^ A / 2 ^ bit_length b"
      unfolding d1 by (simp add: power_int_diff)
    also have "\<dots> \<le> real_of_int a / 2 ^ bit_length b"
    proof -
      have "(2::real) ^ A \<le> real_of_int a"
        using alo by (metis of_int_le_iff of_int_numeral of_int_power)
      then show ?thesis by (simp add: divide_right_mono)
    qed
    also have "\<dots> \<le> real_of_int a / real_of_int b"
    proof -
      have "real_of_int b \<le> 2 ^ bit_length b"
        using bhi by (metis less_imp_le of_int_le_iff of_int_numeral of_int_power)
      then show ?thesis using bpos assms(1) by (simp add: frac_le)
    qed
    finally show ?thesis using False fl by simp
  qed
qed

lemma round_half_even_error:
  assumes "0 < d"
  shows "\<bar>real_of_int (round_half_even n d) - real_of_int n / real_of_int d\<bar> \<le> 1 / 2"
proof -
  define q where "q = n div d"
  define r where "r = n mod d"
  have n: "n = q * d + r" by (simp add: q_def r_def)
  have r: "0 \<le> r" "r < d" using assms by (simp_all add: r_def)
  have dpos: "0 < real_of_int d" using assms by simp
  have x: "real_of_int n / real_of_int d = real_of_int q + real_of_int r / real_of_int d"
    using dpos by (simp add: n field_simps)
  have rd: "0 \<le> real_of_int r / real_of_int d" "real_of_int r / real_of_int d < 1"
    using r dpos by simp_all
  consider (lo) "2 * r < d" | (hi) "d < 2 * r" | (tie) "2 * r = d" by linarith
  then show ?thesis
  proof cases
    case lo
    then have "round_half_even n d = q" by (simp add: round_half_even_def q_def r_def Let_def)
    moreover have "real_of_int r / real_of_int d \<le> 1 / 2"
    proof -
      have "2 * real_of_int r \<le> real_of_int d" using lo by linarith
      then show ?thesis using dpos by (simp add: field_simps)
    qed
    ultimately show ?thesis using x rd by simp
  next
    case hi
    then have "round_half_even n d = q + 1"
      by (simp add: round_half_even_def q_def r_def Let_def)
    moreover have "1 / 2 \<le> real_of_int r / real_of_int d"
    proof -
      have "real_of_int d \<le> 2 * real_of_int r" using hi by linarith
      then show ?thesis using dpos by (simp add: field_simps)
    qed
    ultimately show ?thesis using x rd by simp
  next
    case tie
    then have "round_half_even n d = q \<or> round_half_even n d = q + 1"
      by (simp add: round_half_even_def q_def r_def Let_def)
    moreover have "real_of_int r / real_of_int d = 1 / 2"
    proof -
      have "real_of_int d = 2 * real_of_int r" using tie by linarith
      then show ?thesis using dpos by simp
    qed
    ultimately show ?thesis using x by auto
  qed
qed

lemma floor_log2_upper:
  assumes "0 < a" and "0 < b"
  shows "real_of_int a / real_of_int b < 2 powi (floor_log2 a b + 1)"
proof -
  define d where "d = int (bit_length a) - int (bit_length b)"
  let ?c = "if 0 \<le> d then b * 2 ^ nat d \<le> a else b \<le> a * 2 ^ nat (- d)"
  have fl: "floor_log2 a b = (if ?c then d else d - 1)"
    by (simp add: floor_log2_def d_def Let_def)
  have bpos: "0 < real_of_int b" and apos: "0 < real_of_int a" using assms by simp_all
  show ?thesis
  proof (cases ?c)
    case True
    obtain B where B: "bit_length b = Suc B" using bit_length_pos [OF assms(2)] by simp
    have blo: "(2::int) ^ B \<le> b" using bit_length_bounds [OF assms(2)] B by simp
    have ahi: "a < 2 ^ bit_length a" using bit_length_bounds [OF assms(1)] by simp
    have d1: "d + 1 = int (bit_length a) - int B" by (simp add: d_def B)
    have "real_of_int a / real_of_int b \<le> real_of_int a / 2 ^ B"
    proof -
      have "(2::real) ^ B \<le> real_of_int b"
        using blo by (metis of_int_le_iff of_int_numeral of_int_power)
      then show ?thesis using apos by (simp add: frac_le)
    qed
    also have "\<dots> < 2 ^ bit_length a / 2 ^ B"
    proof -
      have "real_of_int a < 2 ^ bit_length a"
        using ahi by (metis of_int_less_iff of_int_numeral of_int_power)
      then show ?thesis by (simp add: divide_strict_right_mono)
    qed
    also have "\<dots> = 2 powi (d + 1)"
      unfolding d1 by (simp add: power_int_diff)
    finally show ?thesis using True fl by simp
  next
    case False
    show ?thesis
    proof (cases "0 \<le> d")
      case True
      with False have "a < b * 2 ^ nat d" by simp
      then have "real_of_int a < real_of_int (b * 2 ^ nat d)" by linarith
      then have "real_of_int a < real_of_int b * 2 ^ nat d" by simp
      then have "real_of_int a / real_of_int b < 2 ^ nat d"
        using bpos by (simp add: pos_divide_less_eq mult.commute)
      moreover have "(2::real) powi d = 2 ^ nat d" using True by (simp add: power_int_def)
      ultimately show ?thesis using False fl by simp
    next
      case neg: False
      with False have "a * 2 ^ nat (- d) < b" by simp
      then have "real_of_int (a * 2 ^ nat (- d)) < real_of_int b" by linarith
      then have "real_of_int a * 2 ^ nat (- d) < real_of_int b" by simp
      then have "real_of_int a / real_of_int b < 1 / 2 ^ nat (- d)"
        using bpos by (simp add: field_simps)
      moreover have "(2::real) powi d = 1 / 2 ^ nat (- d)"
        using neg by (simp add: power_int_def field_simps)
      ultimately show ?thesis using False fl by simp
    qed
  qed
qed

text \<open>
  The mantissa has 53 bits (or is \<open>2^53\<close>, after rounding up): the rounding is that of
  binary64, neither coarser nor finer.
\<close>

lemma round_pos_mantissa:
  assumes "0 < a" and "0 < b"
  shows "2 ^ 52 \<le> fst (round_pos a b) \<and> fst (round_pos a b) \<le> 2 ^ 53"
proof -
  define e where "e = floor_log2 a b"
  define k where "k = e - 52"
  define n where "n = (if k < 0 then a * 2 ^ nat (- k) else a)"
  define d where "d = (if k < 0 then b else b * 2 ^ nat k)"
  define x where "x = real_of_int a / real_of_int b"
  define m where "m = round_half_even n d"
  have rp: "round_pos a b = (m, k)"
    by (simp add: round_pos_def e_def k_def n_def d_def m_def Let_def)
  have dpos: "0 < d" using assms by (simp add: d_def)
  have nd: "real_of_int n / real_of_int d = x * 2 powi (- k)"
  proof (cases "k < 0")
    case True
    then have "(2::real) powi (- k) = 2 ^ nat (- k)" by (simp add: power_int_def)
    then show ?thesis using True by (simp add: n_def d_def x_def)
  next
    case False
    then have "(2::real) powi (- k) = 1 / 2 ^ nat k"
      by (simp add: power_int_def field_simps)
    then show ?thesis using False by (simp add: n_def d_def x_def)
  qed
  have p: "(0::real) < 2 powi (- k)" by simp
  have lo: "2 powi e \<le> x" using floor_log2_lower [OF assms] by (simp add: e_def x_def)
  have hi: "x < 2 powi (e + 1)" using floor_log2_upper [OF assms] by (simp add: e_def x_def)
  have "2 powi e * 2 powi (- k) \<le> x * 2 powi (- k)"
    using lo p by (simp add: mult_right_mono)
  moreover have "(2::real) powi e * 2 powi (- k) = 2 ^ 52"
    by (simp add: k_def flip: power_int_add)
  ultimately have l: "2 ^ 52 \<le> real_of_int n / real_of_int d" by (simp add: nd)
  have "x * 2 powi (- k) < 2 powi (e + 1) * 2 powi (- k)"
    using hi p by (simp add: mult_strict_right_mono)
  moreover have "(2::real) powi (e + 1) * 2 powi (- k) = 2 ^ 53"
    by (simp add: k_def flip: power_int_add)
  ultimately have h: "real_of_int n / real_of_int d < 2 ^ 53" by (simp add: nd)
  have r: "\<bar>real_of_int m - real_of_int n / real_of_int d\<bar> \<le> 1 / 2"
    using round_half_even_error [OF dpos, of n] by (simp add: m_def)
  have gen_lo: "c - 1 < t" if "c \<le> q" "\<bar>t - q\<bar> \<le> 1 / 2" for c q t :: real
    using that by linarith
  have gen_hi: "t < c + 1" if "q < c" "\<bar>t - q\<bar> \<le> 1 / 2" for c q t :: real
    using that by linarith
  have "real_of_int (2 ^ 52 - 1) < real_of_int m"
    using gen_lo [OF l r] by simp
  then have "2 ^ 52 - 1 < m" by (simp only: of_int_less_iff)
  then have "2 ^ 52 \<le> m" by simp
  moreover have "real_of_int m < real_of_int (2 ^ 53 + 1)"
    using gen_hi [OF h r] by simp
  then have "m < 2 ^ 53 + 1" by (simp only: of_int_less_iff)
  then have "m \<le> 2 ^ 53" by simp
  ultimately show ?thesis by (simp add: rp)
qed

lemma round_pos_error:
  assumes "0 < a" and "0 < b"
  shows "\<bar>float_val (round_pos a b) - real_of_int a / real_of_int b\<bar>
           \<le> (real_of_int a / real_of_int b) / 2 ^ 53"
proof -
  define e where "e = floor_log2 a b"
  define k where "k = e - 52"
  define n where "n = (if k < 0 then a * 2 ^ nat (- k) else a)"
  define d where "d = (if k < 0 then b else b * 2 ^ nat k)"
  define x where "x = real_of_int a / real_of_int b"
  define m where "m = round_half_even n d"
  have rp: "round_pos a b = (m, k)"
    by (simp add: round_pos_def e_def k_def n_def d_def m_def Let_def)
  have dpos: "0 < d" using assms by (simp add: d_def)
  have bpos: "0 < real_of_int b" using assms by simp
  have nd: "real_of_int n / real_of_int d = x * 2 powi (- k)"
  proof (cases "k < 0")
    case True
    then have "(2::real) powi (- k) = 2 ^ nat (- k)" by (simp add: power_int_def)
    then show ?thesis using True by (simp add: n_def d_def x_def)
  next
    case False
    then have "(2::real) powi (- k) = 1 / 2 ^ nat k"
      by (simp add: power_int_def field_simps)
    then show ?thesis using False by (simp add: n_def d_def x_def)
  qed
  have p: "(0::real) < 2 powi k" by simp
  have inv: "(2::real) powi (- k) * 2 powi k = 1"
    by (simp add: power_int_minus)
  have "\<bar>real_of_int m - x * 2 powi (- k)\<bar> \<le> 1 / 2"
    using round_half_even_error [OF dpos, of n] by (simp add: m_def nd)
  then have "\<bar>real_of_int m - x * 2 powi (- k)\<bar> * 2 powi k \<le> 1 / 2 * 2 powi k"
    using p by (simp add: mult_right_mono)
  moreover have "\<bar>real_of_int m - x * 2 powi (- k)\<bar> * 2 powi k =
      \<bar>real_of_int m * 2 powi k - x\<bar>"
  proof -
    have "\<bar>real_of_int m - x * 2 powi (- k)\<bar> * 2 powi k =
        \<bar>(real_of_int m - x * 2 powi (- k)) * 2 powi k\<bar>"
      using p by (simp add: abs_mult)
    also have "(real_of_int m - x * 2 powi (- k)) * 2 powi k =
        real_of_int m * 2 powi k - x * (2 powi (- k) * 2 powi k)"
      by (simp add: algebra_simps)
    finally show ?thesis by (simp add: inv)
  qed
  ultimately have err: "\<bar>real_of_int m * 2 powi k - x\<bar> \<le> 2 powi k / 2" by simp
  have "2 powi e \<le> x" using floor_log2_lower [OF assms] by (simp add: e_def x_def)
  moreover have "(2::real) powi e = 2 powi k * 2 ^ 52"
    by (simp add: k_def power_int_diff)
  ultimately have "2 powi k * 2 ^ 52 \<le> x" by simp
  then have "2 powi k / 2 \<le> x / 2 ^ 53" by simp
  with err show ?thesis by (simp add: rp float_val_def x_def)
qed

lemma round_pos_positive:
  assumes "0 < a" and "0 < b"
  shows "0 < fst (round_pos a b)"
proof -
  define x where "x = real_of_int a / real_of_int b"
  have xpos: "0 < x" using assms by (simp add: x_def)
  have "\<bar>float_val (round_pos a b) - x\<bar> \<le> x / 2 ^ 53"
    using round_pos_error [OF assms] by (simp add: x_def)
  moreover have "x / 2 ^ 53 < x" using xpos by simp
  ultimately have "0 < float_val (round_pos a b)" by linarith
  then have "0 < real_of_int (fst (round_pos a b)) * 2 powi (snd (round_pos a b))"
    by (simp add: float_val_def)
  moreover have "(0::real) < 2 powi (snd (round_pos a b))" by simp
  ultimately have "0 < real_of_int (fst (round_pos a b))"
    by (simp add: zero_less_mult_iff del: of_int_0_less_iff)
  then show ?thesis by simp
qed

lemma round_frac_pos:
  assumes "0 < a" and "0 < b"
  shows "round_frac a b = round_pos a b"
  using assms by (simp add: round_frac_def split: prod.splits)

lemma float_mul_int_error:
  assumes "0 < w" and "0 < fst f"
  shows "\<bar>float_val (float_mul_int w f) - real_of_int w * float_val f\<bar>
           \<le> (real_of_int w * float_val f) / 2 ^ 53"
proof -
  obtain m k where f: "f = (m, k)" by (cases f)
  have m: "0 < m" using assms f by simp
  have wm: "0 < w * m" using assms(1) m by simp
  show ?thesis
  proof (cases "k < 0")
    case True
    have v: "real_of_int (w * m) / real_of_int (2 ^ nat (- k)) = real_of_int w * float_val f"
      using True by (simp add: f float_val_def power_int_def field_simps)
    have fm: "float_mul_int w f = round_pos (w * m) (2 ^ nat (- k))"
      using True wm by (simp add: float_mul_int_def f round_frac_pos)
    have "\<bar>float_val (round_pos (w * m) (2 ^ nat (- k))) -
          real_of_int (w * m) / real_of_int (2 ^ nat (- k))\<bar>
        \<le> (real_of_int (w * m) / real_of_int (2 ^ nat (- k))) / 2 ^ 53"
      by (rule round_pos_error [OF wm]) simp
    then show ?thesis unfolding v fm .
  next
    case False
    have pos: "0 < w * m * 2 ^ nat k" using wm by simp
    have v: "real_of_int (w * m * 2 ^ nat k) / real_of_int 1 = real_of_int w * float_val f"
      using False by (simp add: f float_val_def power_int_def)
    have fm: "float_mul_int w f = round_pos (w * m * 2 ^ nat k) 1"
      using False pos by (simp add: float_mul_int_def f round_frac_pos)
    have "\<bar>float_val (round_pos (w * m * 2 ^ nat k) 1) -
          real_of_int (w * m * 2 ^ nat k) / real_of_int 1\<bar>
        \<le> (real_of_int (w * m * 2 ^ nat k) / real_of_int 1) / 2 ^ 53"
      by (rule round_pos_error [OF pos]) simp
    then show ?thesis unfolding v fm .
  qed
qed

lemma float_int_floor:
  assumes "0 \<le> fst f"
  shows "float_int f = \<lfloor>float_val f\<rfloor>"
proof -
  obtain m k where f: "f = (m, k)" by (cases f)
  have m: "0 \<le> m" using assms f by simp
  show ?thesis
  proof (cases "0 \<le> k")
    case True
    then have "float_val f = real_of_int (m * 2 ^ nat k)"
      by (simp add: f float_val_def power_int_def)
    then show ?thesis using True by (simp add: f float_int_def del: of_int_mult of_int_power)
  next
    case False
    then have "float_val f = real_of_int m / real_of_int (2 ^ nat (- k))"
      by (simp add: f float_val_def power_int_def field_simps)
    then have "\<lfloor>float_val f\<rfloor> = m div 2 ^ nat (- k)"
      by (simp only: floor_divide_of_int_eq)
    then show ?thesis using False m by (simp add: f float_int_def)
  qed
qed

lemma float_mul_int_positive:
  assumes "0 < w" and "0 < fst f"
  shows "0 < fst (float_mul_int w f)"
proof -
  obtain m k where f: "f = (m, k)" by (cases f)
  have wm: "0 < w * m" using assms f by simp
  show ?thesis
  proof (cases "k < 0")
    case True
    then have "float_mul_int w f = round_pos (w * m) (2 ^ nat (- k))"
      using wm by (simp add: float_mul_int_def f round_frac_pos)
    then show ?thesis using round_pos_positive [OF wm, of "2 ^ nat (- k)"] by simp
  next
    case False
    have pos: "0 < w * m * 2 ^ nat k" using wm by simp
    from False have "float_mul_int w f = round_pos (w * m * 2 ^ nat k) 1"
      using pos by (simp add: float_mul_int_def f round_frac_pos)
    then show ?thesis using round_pos_positive [OF pos, of 1] by simp
  qed
qed

lemma scaled_width_close:
  assumes "0 < w" and "0 < h" and "0 < H" and "H * w < 2 ^ 51"
  shows "\<bar>float_val (float_mul_int w (round_frac H h)) -
           real_of_int (H * w) / real_of_int h\<bar> < 1 / real_of_int h"
    and "0 < fst (float_mul_int w (round_frac H h))"
proof -
  define y where "y = real_of_int H / real_of_int h"
  define r where "r = float_val (round_frac H h)"
  define x where "x = real_of_int (H * w) / real_of_int h"
  define p where "p = float_val (float_mul_int w (round_frac H h))"
  define u where "u = (1::real) / 2 ^ 53"
  have hpos: "0 < real_of_int h" and wpos: "0 < real_of_int w" using assms by simp_all
  have ypos: "0 < y" using assms by (simp add: y_def)
  have xy: "x = real_of_int w * y" by (simp add: x_def y_def)
  have xpos: "0 < x" using ypos wpos by (simp add: xy)
  have td: "round_frac H h = round_pos H h"
    using assms by (simp add: round_frac_pos)
  have mpos: "0 < fst (round_frac H h)"
    using round_pos_positive [OF assms(3,2)] td by simp
  show "0 < fst (float_mul_int w (round_frac H h))"
    by (rule float_mul_int_positive [OF assms(1) mpos])
  have e1: "\<bar>r - y\<bar> \<le> y * u"
    using round_pos_error [OF assms(3,2)] td by (simp add: r_def y_def u_def)
  have "\<bar>real_of_int w * r - x\<bar> = real_of_int w * \<bar>r - y\<bar>"
    using wpos by (simp add: xy abs_mult flip: right_diff_distrib)
  also have "\<dots> \<le> real_of_int w * (y * u)"
    using e1 wpos by (simp add: mult_left_mono)
  finally have e2: "\<bar>real_of_int w * r - x\<bar> \<le> x * u" by (simp add: xy)
  have e3: "\<bar>p - real_of_int w * r\<bar> \<le> (real_of_int w * r) * u"
    using float_mul_int_error [OF assms(1) mpos] by (simp add: p_def r_def u_def)
  have upos: "0 < u" "u \<le> 1" by (simp_all add: u_def)
  have t_le: "real_of_int w * r \<le> x + x * u" using e2 by linarith
  have "(real_of_int w * r) * u \<le> (x + x * u) * u"
    using t_le upos by (simp add: mult_right_mono)
  also have "\<dots> \<le> 2 * (x * u)"
  proof -
    have "x * u * u \<le> x * u * 1" using upos xpos by (intro mult_left_mono) simp_all
    then show ?thesis by (simp add: algebra_simps)
  qed
  finally have e4: "\<bar>p - real_of_int w * r\<bar> \<le> 2 * (x * u)" using e3 by linarith
  have e5: "\<bar>p - x\<bar> \<le> 3 * (x * u)" using e2 e4 by linarith
  have "real_of_int (H * w) < 2 ^ 51"
    using assms(4) by (metis of_int_less_iff of_int_numeral of_int_power)
  then have "3 * (real_of_int (H * w) * u) < 1"
    by (simp add: u_def)
  then have "3 * (real_of_int (H * w) * u) / real_of_int h < 1 / real_of_int h"
    using hpos by (simp add: divide_strict_right_mono)
  moreover have "3 * (x * u) = 3 * (real_of_int (H * w) * u) / real_of_int h"
    by (simp add: x_def)
  ultimately have "3 * (x * u) < 1 / real_of_int h" by simp
  with e5 show "\<bar>float_val (float_mul_int w (round_frac H h)) -
      real_of_int (H * w) / real_of_int h\<bar> < 1 / real_of_int h"
    by (simp add: p_def x_def)
qed

lemma floor_near_quotient:
  fixes p :: real
  assumes "0 < h" and "\<bar>p - real_of_int n / real_of_int h\<bar> < 1 / real_of_int h"
  shows "if h dvd n then \<lfloor>p\<rfloor> = n div h \<or> \<lfloor>p\<rfloor> = n div h - 1 else \<lfloor>p\<rfloor> = n div h"
proof -
  define q where "q = n div h"
  define r where "r = n mod h"
  have n: "n = q * h + r" by (simp add: q_def r_def)
  have r: "0 \<le> r" "r < h" using assms(1) by (simp_all add: r_def)
  have hpos: "0 < real_of_int h" using assms(1) by simp
  have x: "real_of_int n / real_of_int h = real_of_int q + real_of_int r / real_of_int h"
    using hpos by (simp add: n field_simps)
  have lo: "real_of_int q + real_of_int r / real_of_int h - 1 / real_of_int h < p"
    and hi: "p < real_of_int q + real_of_int r / real_of_int h + 1 / real_of_int h"
    using assms(2) x by linarith+
  have inv: "1 / real_of_int h \<le> 1" using assms(1) by simp
  show ?thesis
  proof (cases "h dvd n")
    case True
    then have "r = 0" by (simp add: r_def)
    then have "real_of_int q - 1 < p" "p < real_of_int q + 1" using lo hi inv by simp_all
    then have "\<lfloor>p\<rfloor> = q \<or> \<lfloor>p\<rfloor> = q - 1" by linarith
    then show ?thesis using True by (simp add: q_def)
  next
    case False
    then have "r \<noteq> 0" by (simp add: r_def dvd_eq_mod_eq_0)
    then have r1: "1 \<le> r" "r \<le> h - 1" using r by simp_all
    have a: "1 / real_of_int h \<le> real_of_int r / real_of_int h"
      using r1(1) hpos by (simp add: divide_right_mono)
    have "real_of_int r + 1 \<le> real_of_int h" using r1(2) by linarith
    then have "(real_of_int r + 1) / real_of_int h \<le> 1"
      using hpos by simp
    then have b: "real_of_int r / real_of_int h + 1 / real_of_int h \<le> 1"
      by (simp add: add_divide_distrib)
    have "real_of_int q \<le> p" "p < real_of_int q + 1" using lo hi a b by linarith+
    then have "\<lfloor>p\<rfloor> = q" by linarith
    then show ?thesis using False by (simp add: q_def)
  qed
qed

lemma scaled_width:
  assumes "0 < w" and "0 < h" and "0 < H" and "H * w < 2 ^ 51"
  shows "if h dvd H * w
         then float_int (float_mul_int w (round_frac H h)) = H * w div h \<or>
              float_int (float_mul_int w (round_frac H h)) = H * w div h - 1
         else float_int (float_mul_int w (round_frac H h)) = H * w div h"
  using floor_near_quotient [OF assms(2) scaled_width_close(1) [OF assms]]
    float_int_floor [of "float_mul_int w (round_frac H h)"] scaled_width_close(2) [OF assms]
  by simp

section \<open>The width asked of the resize\<close>

lemma new_width_value:
  assumes "h \<noteq> 0"
  shows "new_width H (w, h) = Inr (float_int (float_mul_int w (round_frac H h)))"
  using assms by (simp add: new_width_def float_truediv_def)

text \<open>
  C4 as stated fails: for a 1000 x 1080 source and target height 720 the resize is
  asked for width 666, and \<open>round (720 * 1000 / 1080)\<close> is 667.
\<close>

theorem resize_width_not_rounded:
  "apply_resolution ''720p'' sample_image =
     ([Resize (666, 720)], Inr (sample_image\<lparr>img_size := (666, 720)\<rparr>)) \<and>
   round (720 * 1000 / 1080 :: real) = (667::int)"
  by (simp add: apply_resolution_def sample_image_def int_of_str_def digit_val_def
      new_width_def float_truediv_def float_int_def float_mul_int_def round_frac_def
      round_pos_def floor_log2_def round_half_even_def bit_length.simps Let_def
      pil_resize_def round_def)

text \<open>
  The width can also fall one below the truncated quotient: \<open>1080 * 372 / 31\<close> is
  12960 exactly, the float nearest to \<open>1080 / 31\<close> lies below it, and so does the
  product.
\<close>

lemma resize_width_below_quotient:
  "new_width 1080 (372, 31) = Inr 12959 \<and> 1080 * 372 div 31 = (12960::int)"
  by (simp add: new_width_def float_truediv_def float_int_def float_mul_int_def
      round_frac_def round_pos_def floor_log2_def round_half_even_def bit_length.simps
      Let_def)

text \<open>
  C4, amended. For a source of positive size \<open>w x h\<close> and a resolution item naming the
  height \<open>H > 0\<close>, with \<open>H * w < 2^51\<close>, the resize step asks for a width that is the
  quotient \<open>H * w / h\<close> truncated, \<open>H * w div h\<close>, never rounded up; when \<open>h\<close> divides
  \<open>H * w\<close> it may also be one less. It is within 1 of \<open>H * w / h\<close>. The output has that
  width and height \<open>H\<close>, unless the width is 0, when \<^verbatim>\<open>resize\<close> raises ValueError.
\<close>

theorem resize_width_truncates:
  assumes "res \<noteq> ''Original''" and "int_of_str (butlast res) = Inr H" and "0 < H"
    and "img_size img = (w, h)" and "0 < w" and "0 < h" and "H * w < 2 ^ 51"
  shows "\<exists>nw. apply_resolution res img =
           ([Resize (nw, H)],
            if nw < 1 then Inl ValueError else Inr (img\<lparr>img_size := (nw, H)\<rparr>)) \<and>
         (if h dvd H * w then nw = H * w div h \<or> nw = H * w div h - 1
          else nw = H * w div h) \<and>
         \<bar>real_of_int nw - real_of_int (H * w) / real_of_int h\<bar> \<le> 1"
proof -
  define nw where "nw = float_int (float_mul_int w (round_frac H h))"
  have nwv: "new_width H (w, h) = Inr nw"
    using assms(6) new_width_value [of h H w] by (simp add: nw_def)
  have a: "apply_resolution res img =
           ([Resize (nw, H)],
            if nw < 1 then Inl ValueError else Inr (img\<lparr>img_size := (nw, H)\<rparr>))"
    using assms(1,2,3,4) nwv by (simp add: apply_resolution_def pil_resize_def)
  have b: "if h dvd H * w then nw = H * w div h \<or> nw = H * w div h - 1
          else nw = H * w div h"
    using scaled_width [OF assms(5,6,3,7)] by (simp add: nw_def)
  define x where "x = real_of_int (H * w) / real_of_int h"
  have f: "H * w div h = \<lfloor>x\<rfloor>"
    using floor_divide_of_int_eq [of "H * w" h, where ?'a = real] by (simp add: x_def)
  have c: "\<bar>real_of_int nw - x\<bar> \<le> 1"
  proof (cases "h dvd H * w")
    case True
    then have "x = real_of_int (H * w div h)"
      using assms(6) by (simp add: x_def real_of_int_div)
    moreover from True b have "nw = H * w div h \<or> nw = H * w div h - 1" by simp
    ultimately show ?thesis by auto
  next
    case False
    with b have "nw = \<lfloor>x\<rfloor>" using f by simp
    then show ?thesis by linarith
  qed
  show ?thesis using a b c unfolding x_def by blast
qed

theorem resize_width_truncates_witness:
  "apply_resolution ''480p'' sample_image =
     ([Resize (444, 480)], Inr (sample_image\<lparr>img_size := (444, 480)\<rparr>))"
  using resize_width_truncates [of "''480p''" 480 sample_image 1000 1080]
  by (auto simp add: int_of_str_def digit_val_def sample_image_def)

text \<open>
  C8. For a \<^verbatim>\<open>.dng\<close> frame the export decodes with \<^verbatim>\<open>raw.postprocess()\<close> and no
  argument, so no \<^verbatim>\<open>use_camera_wb\<close> is passed; \<^verbatim>\<open>desqueeze_image\<close> passes
  \<^verbatim>\<open>use_camera_wb=True\<close>.
\<close>

theorem dng_decode_passes_no_white_balance:
  "decode e ''shot.dng'' =
     ([RawpyImread ''shot.dng'', RawPostprocess ''shot.dng'' []],
      rawpy_postprocess e ''shot.dng'' []) \<and>
   map_of [] ''use_camera_wb'' = (None :: kwval option) \<and>
   map_of desqueeze_postprocess_kwargs ''use_camera_wb'' = Some (KBool True)"
  by (simp add: decode_def endswith_def lower_def lower_char_def
      desqueeze_postprocess_kwargs_def)

section \<open>Quality\<close>



lemma init_quality_slider:
  "quality_slider init = \<lparr>slider_minimum = 1, slider_maximum = 100, slider_value = 85\<rparr>"
  by (simp add: init_def setValue_def setRange_def new_QSlider_def)


text \<open>
  No method of the app writes the quality slider: it changes only when a value is set
  on the widget.
\<close>

lemma operations_keep_slider:
  "quality_slider (add_images s files) = quality_slider s"
  "remove_selected_frame s = Inr s' \<Longrightarrow> quality_slider s' = quality_slider s"
  "quality_slider (undo s) = quality_slider s"
  "quality_slider (redo s) = quality_slider s"
  "quality_slider (show_image s i) = quality_slider s"
  "quality_slider (update_fps s v) = quality_slider s"
  "toggle_play s = Inr s' \<Longrightarrow> quality_slider s' = quality_slider s"
  "next_frame s = Inr s' \<Longrightarrow> quality_slider s' = quality_slider s"
  "prev_frame s = Inr s' \<Longrightarrow> quality_slider s' = quality_slider s"
  by (auto simp add: add_images_settings remove_selected_frame_def undo_def redo_def
      show_image_def update_fps_def toggle_play_def next_frame_def prev_frame_def
      list_copy_def add_to_undo_stack_def update_image_list_def update_thumbnail_view_def
      Let_def split: if_splits sum.splits prod.splits)

lemma one_frame_fields:
  "frames (add_images init [''a.png'']) = [''a.png'']"
  "images (add_images init [''a.png'']) = 0"
  "fps (add_images init [''a.png'']) = 24"
  "optimize_toggle (add_images init [''a.png''])"
  "resolution_combo (add_images init [''a.png'']) = ''Original''"
  "loop_count_spin (add_images init [''a.png'']) = 0"
  "output_format_combo (add_images init [''a.png'']) = ''GIF''"
  "quality_slider (add_images init [''a.png'']) = quality_slider init"
  by (simp_all add: first_add add_images_settings) (simp_all add: init_def)


lemma process_frame_plain:
  assumes "resolution_combo s = ''Original''" and "optimize_toggle s"
    and "pil_open e ''a.png'' = Inr sample_image" and "pil_thumbnail e sample_image (800, 800) = sample_image"
  shows "process_frame e s ''a.png'' =
           ([ImageOpen ''a.png'', Thumbnail (800, 800)], Inr sample_image)"
  using assms
  by (simp add: process_frame_def decode_def endswith_def lower_def lower_char_def
      convert_rgba_def sample_image_def apply_resolution_def apply_optimize_def)

lemma gif_names:
  "lower ''GIF'' = ''gif''" "upper ''gif'' = ''GIF''"
  by (simp_all add: lower_def upper_def lower_char_def upper_char_def)

lemma slider_moved_env_fields:
  "save_file_name slider_moved_env = ''out.gif''"
  "pil_open slider_moved_env p = Inr sample_image"
  "pil_thumbnail slider_moved_env img sz = img"
  "mimsave slider_moved_env f imgs fmt kw = None"
  "pending slider_moved_env =
     [\<lambda>s. ([], Inr (s\<lparr>quality_slider := setValue 40 (quality_slider s)\<rparr>))]"
  by (simp_all add: slider_moved_env_def sample_env_def)

lemma load_frames_done:
  "length (heap s r) \<le> i \<Longrightarrow> load_frames e pend r i s = ([], s, Inr [])"
  by (subst load_frames.simps) simp

lemma load_one_frame_slider_moved:
  assumes "heap s 0 = [''a.png'']" and "images s = 0"
    and "resolution_combo s = ''Original''" and "optimize_toggle s"
  shows "load_frames slider_moved_env (pending slider_moved_env) 0 0 s =
     ([ImageOpen ''a.png'', Thumbnail (800, 800)],
      s\<lparr>progress_bar := (progress_bar s)
           \<lparr>bar_value := float_int (float_mul_int 50 (round_frac 1 1))\<rparr>,
         quality_slider := setValue 40 (quality_slider s)\<rparr>,
      Inr [sample_image])"
proof -
  have p: "process_frame slider_moved_env s ''a.png'' =
           ([ImageOpen ''a.png'', Thumbnail (800, 800)], Inr sample_image)"
    by (rule process_frame_plain) (simp_all add: assms slider_moved_env_fields)
  show ?thesis
    by (subst load_frames.simps)
      (simp add: assms p frames_def float_truediv_def slider_moved_env_fields(5)
        load_frames_done)
qed

text \<open>
  The quality the encoder gets is the slider's value when the encode step runs, not
  when the export began: with a slider move to 40 pending at the first
  \<^verbatim>\<open>processEvents\<close>, an export begun at 85 encodes with 40.
\<close>

lemma export_reads_slider_after_events:
  "slider_value (quality_slider (add_images init [''a.png''])) = 85 \<and>
   fst (create_gif slider_moved_env (add_images init [''a.png''])) =
     [GetSaveFileName ''Save GIF'' ''GIF Files (*.gif)'', ImageOpen ''a.png'',
      Thumbnail (800, 800),
      Mimsave ''out.gif'' [sample_image] ''gif''
        [(''fps'', KInt 24), (''loop'', KInt 0), (''optimize'', KBool True),
         (''quality'', KInt 40)],
      MessageInformation ''Success'' ''GIF created successfully: out.gif'']"
proof -
  let ?s = "add_images init [''a.png'']"
  let ?s1 = "?s\<lparr>progress_bar := \<lparr>bar_visible = True, bar_value = 0\<rparr>\<rparr>"
  have h: "heap ?s1 0 = [''a.png'']" "images ?s1 = 0"
    "resolution_combo ?s1 = ''Original''" "optimize_toggle ?s1"
    using one_frame_fields by (simp_all add: frames_def)
  note lf = load_one_frame_slider_moved [OF h]
  have fr: "frames ?s = [''a.png'']" by (simp add: one_frame_fields)
  show ?thesis
    by (simp add: create_gif_def fr one_frame_fields(2-) gif_names slider_moved_env_fields(1-4)
        h lf Let_def encode_def gif_kwargs_def finish_export_def
        init_quality_slider setValue_def)
qed



end
